theory Spec2Isabelle
  imports Main "HOL-Library.Sublist"
begin

text \<open>
  A model of scrapy-webdriver's spider middleware (\<^verbatim>\<open>middlewares.py\<close>) and download
  handler (\<^verbatim>\<open>download.py\<close>), which serialise the requests of a crawl over one webdriver
  session. Every call that leaves the two files (to the manager, the webdriver, the signal
  module and the log) is recorded in an event log, so that what a function calls, with
  what and in which order, can be stated. The manager itself (\<^verbatim>\<open>manager.py\<close>) is not among
  the sources: the functions take its operations as a parameter, and a manager that follows
  the contract of the specification is defined for the queue discipline and the examples.
\<close>

section \<open>Requests, items and the values that flow through the middleware\<close>

text \<open>
  The request classes of \<^verbatim>\<open>scrapy_webdriver.http\<close> as the two source files test them
  with \<^verbatim>\<open>isinstance\<close>: a plain scrapy \<^verbatim>\<open>Request\<close>, a \<^verbatim>\<open>WebdriverRequest\<close>, and its
  subclass \<^verbatim>\<open>WebdriverActionRequest\<close> (both files test the action class only inside the
  branch of the webdriver class).
\<close>

datatype request_class = Request | WebdriverRequest | WebdriverActionRequest

record request =
  url :: string
  cls :: request_class
  dont_filter :: bool
  meta :: string

fun isinstance_WebdriverRequest :: "request \<Rightarrow> bool" where
  "isinstance_WebdriverRequest r = (cls r = WebdriverRequest \<or> cls r = WebdriverActionRequest)"

fun isinstance_WebdriverActionRequest :: "request \<Rightarrow> bool" where
  "isinstance_WebdriverActionRequest r = (cls r = WebdriverActionRequest)"

text \<open>What a spider yields: scraped items and requests.\<close>

datatype element = Item string | Req request

text \<open>
  What \<^verbatim>\<open>acquire\<close> and \<^verbatim>\<open>acquire_next\<close> return: the sentinel
  \<^verbatim>\<open>WebdriverRequest.WAITING\<close>, or a request.
\<close>

datatype acquired = WAITING | Admitted request

text \<open>
  The exceptions that leave the two files: the two they raise themselves, and the one
  \<^verbatim>\<open>signal.alarm\<close> raises for a number of seconds it refuses.
\<close>

datatype error = NotImplementedError | IgnoreRequest string | OverflowError

text \<open>
  An exception caught by \<^verbatim>\<open>except Exception, exception\<close>: its text, and the
  \<^verbatim>\<open>page_source\<close> attribute the handler attaches to it.
\<close>

record exn =
  exn_text :: string
  page_source :: "string option"

type_synonym handle = nat

section \<open>Effects: the event log and the shared state\<close>

datatype level = DEBUG | INFO | WARNING | ERROR

datatype signal = SIGALRM | SIGTERM

text \<open>
  A log message is kept as the pieces the source formats into it: literal text, a URL,
  an exception, the raw \<^verbatim>\<open>_webdriver\<close> attribute and the hang timeout.
\<close>

datatype piece =
    Txt string
  | Url string
  | Exc exn
  | Obj "handle option"
  | Secs "int option"

datatype event =
    Log level "piece list"
  | SignalBind signal request
  | Alarm int
  | MgrAcquire request acquired
  | MgrRelease "string option"
  | MgrAcquireNext acquired
  | WebdriverProperty handle
  | WebdriverGet handle string "exn option"
  | SendSignal handle signal

text \<open>
  The state both files work on. \<^verbatim>\<open>lock\<close> is the manager's lock and wait queue, of a
  type the middleware and the download handler never look into; \<^verbatim>\<open>webdriver_attr\<close> is
  the manager's \<^verbatim>\<open>_webdriver\<close> attribute, which \<^verbatim>\<open>download.py\<close> reads and assigns
  directly; \<^verbatim>\<open>events\<close> is the chronological log of every call that leaves the two files.
\<close>

record 'l world =
  lock :: 'l
  webdriver_attr :: "handle option"
  next_handle :: handle
  events :: "event list"

definition emit :: "event \<Rightarrow> 'l world \<Rightarrow> 'l world" where
  "emit e w = w\<lparr>events := events w @ [e]\<rparr>"

text \<open>
  \<^verbatim>\<open>manager.py\<close> is not among the sources. Its three lock operations are a parameter
  of everything below. \<^verbatim>\<open>release\<close> takes an optional identity: the middleware passes
  the URL, the download handler passes nothing.
\<close>

record 'l manager_ops =
  op_acquire :: "request \<Rightarrow> 'l \<Rightarrow> acquired \<times> 'l"
  op_release :: "string option \<Rightarrow> 'l \<Rightarrow> 'l"
  op_acquire_next :: "'l \<Rightarrow> acquired \<times> 'l"

definition call_acquire :: "'l manager_ops \<Rightarrow> request \<Rightarrow> 'l world \<Rightarrow> acquired \<times> 'l world" where
  "call_acquire ops r w =
     (case op_acquire ops r (lock w) of
        (res, l') \<Rightarrow> (res, emit (MgrAcquire r res) (w\<lparr>lock := l'\<rparr>)))"

definition call_release :: "'l manager_ops \<Rightarrow> string option \<Rightarrow> 'l world \<Rightarrow> 'l world" where
  "call_release ops ident w = emit (MgrRelease ident) (w\<lparr>lock := op_release ops ident (lock w)\<rparr>)"

definition call_acquire_next :: "'l manager_ops \<Rightarrow> 'l world \<Rightarrow> acquired \<times> 'l world" where
  "call_acquire_next ops w =
     (case op_acquire_next ops (lock w) of
        (res, l') \<Rightarrow> (res, emit (MgrAcquireNext res) (w\<lparr>lock := l'\<rparr>)))"

text \<open>
  Modelled from the spec: the \<^verbatim>\<open>webdriver\<close> property of the manager, whose code is in
  the missing \<^verbatim>\<open>manager.py\<close>. The spec (4.2) gives it lazy singleton semantics: the first
  access constructs the session, later accesses reuse it, and after the attribute was
  reset to \<^verbatim>\<open>None\<close> the next access constructs a new one.
\<close>

definition webdriver :: "'l world \<Rightarrow> handle \<times> 'l world" where
  "webdriver w =
     (case webdriver_attr w of
        Some h \<Rightarrow> (h, emit (WebdriverProperty h) w)
      | None \<Rightarrow>
          (next_handle w,
           emit (WebdriverProperty (next_handle w))
             (w\<lparr>webdriver_attr := Some (next_handle w), next_handle := Suc (next_handle w)\<rparr>)))"

section \<open>middlewares.py: WebdriverSpiderMiddleware\<close>

definition error_msg :: string where
  "error_msg = ''WebdriverRequests from start_requests can't be in-page.''"

text \<open>
  A generator is modelled by what a consumer that exhausts it sees: the elements it
  yielded, the exception that ended it (if one did), and the state it left.
\<close>

type_synonym 'l generated = "element list \<times> error option \<times> 'l world"

definition yield :: "element \<Rightarrow> 'l generated \<Rightarrow> 'l generated" where
  "yield x g = (case g of (out, err, w) \<Rightarrow> (x # out, err, w))"

text \<open>\<^verbatim>\<open>_process_requests(self, items_or_requests, start=False)\<close>.\<close>

fun process_requests :: "'l manager_ops \<Rightarrow> bool \<Rightarrow> element list \<Rightarrow> 'l world \<Rightarrow> 'l generated" where
  "process_requests ops start [] w = ([], None, w)"
| "process_requests ops start (Item i # rest) w = yield (Item i) (process_requests ops start rest w)"
| "process_requests ops start (Req request # rest) w =
     (if isinstance_WebdriverRequest request then
        if start \<and> isinstance_WebdriverActionRequest request then
          ([], Some (IgnoreRequest error_msg), w)
        else
          (case call_acquire ops request w of
             (WAITING, w') \<Rightarrow> process_requests ops start rest w'
           | (Admitted request', w') \<Rightarrow> yield (Req request') (process_requests ops start rest w'))
      else yield (Req request) (process_requests ops start rest w))"

definition process_start_requests :: "'l manager_ops \<Rightarrow> element list \<Rightarrow> 'l world \<Rightarrow> 'l generated" where
  "process_start_requests ops start_requests w = process_requests ops True start_requests w"

text \<open>The one attribute of a response the middleware reads: \<^verbatim>\<open>response.request\<close>.\<close>

record response =
  response_request :: request

definition process_spider_output ::
  "'l manager_ops \<Rightarrow> response \<Rightarrow> element list \<Rightarrow> 'l world \<Rightarrow> 'l generated" where
  "process_spider_output ops response result w =
     (case process_requests ops False result w of
        (out, Some e, w1) \<Rightarrow> (out, Some e, w1)
      | (out, None, w1) \<Rightarrow>
          if isinstance_WebdriverRequest (response_request response) then
            (case call_acquire_next ops (call_release ops (Some (url (response_request response))) w1) of
               (WAITING, w3) \<Rightarrow> (out, None, w3)
             | (Admitted next_request, w3) \<Rightarrow>
                 (out @ [Req (next_request\<lparr>dont_filter := True\<rparr>)], None, w3))
          else (out, None, w1))"

text \<open>
  \<^verbatim>\<open>process_spider_exception\<close> returns a list holding whatever \<^verbatim>\<open>acquire_next\<close>
  returned, or (falling off the end) \<^verbatim>\<open>None\<close>.
\<close>

definition process_spider_exception ::
  "'l manager_ops \<Rightarrow> response \<Rightarrow> exn \<Rightarrow> 'l world \<Rightarrow> acquired list option \<times> 'l world" where
  "process_spider_exception ops response exception w =
     (if isinstance_WebdriverRequest (response_request response) then
        (case call_acquire_next ops (call_release ops (Some (url (response_request response))) w) of
           (next_request, w2) \<Rightarrow> (Some [next_request], w2))
      else (None, w))"

section \<open>download.py: WebdriverDownloadHandler\<close>

text \<open>
  The settings \<^verbatim>\<open>__init__\<close> reads. \<^verbatim>\<open>settings.get\<close> answers \<^verbatim>\<open>None\<close> for an
  absent key as for a key set to \<^verbatim>\<open>None\<close>, so each is an option. The two timeouts
  are Python integers, of any size.
\<close>

record settings =
  WEBDRIVER_BROWSER :: "string option"
  WEBDRIVER_TIMEOUT :: "int option"
  WEBDRIVER_HANG_TIMEOUT :: "int option"

text \<open>
  The handler's attributes. The fallback handler is scrapy's own
  \<^verbatim>\<open>HttpDownloadHandler\<close>; its \<^verbatim>\<open>download_request\<close> is a parameter with a result of
  any type.
\<close>

record 'f handler =
  enabled :: bool
  timeout :: "int option"
  hang_timeout :: "int option"
  fallback_handler :: "request \<Rightarrow> 'f"

definition init :: "(request \<Rightarrow> 'f) \<Rightarrow> settings \<Rightarrow> 'f handler" where
  "init fallback s =
     \<lparr>enabled = (WEBDRIVER_BROWSER s \<noteq> None),
      timeout = WEBDRIVER_TIMEOUT s,
      hang_timeout = WEBDRIVER_HANG_TIMEOUT s,
      fallback_handler = fallback\<rparr>"

text \<open>Python's truth value of \<^verbatim>\<open>self._hang_timeout\<close>: \<^verbatim>\<open>None\<close> and \<^verbatim>\<open>0\<close> are false.\<close>

fun truthy :: "int option \<Rightarrow> bool" where
  "truthy None = False"
| "truthy (Some n) = (n \<noteq> 0)"

text \<open>
  Modelled from the spec: the response class of the missing \<^verbatim>\<open>http.py\<close>. The spec (6)
  says a response carries the target URL and either a session reference or a captured
  exception; the source passes one or the other as the second argument of
  \<^verbatim>\<open>WebdriverResponse\<close>.
\<close>

datatype resource = Session handle | Failure exn

datatype 'f downloaded = WebdriverResponse string resource | Fallback 'f

definition blank_page :: string where
  "blank_page = ''<html><head></head><body></body></html>''"

definition quote :: string where
  "quote = [CHR 0x27]"

text \<open>The three messages that are not debugging output.\<close>

definition msg_downloading :: "request \<Rightarrow> piece list" where
  "msg_downloading request = [Txt ''Downloading '', Url (url request), Txt '' with webdriver'']"

definition msg_error :: "request \<Rightarrow> exn \<Rightarrow> piece list" where
  "msg_error request exception =
     [Txt ''Error while downloading '', Url (url request), Txt '' with webdriver ('',
      Exc exception, Txt '')'']"

definition msg_hang :: "request \<Rightarrow> int option \<Rightarrow> piece list" where
  "msg_hang request secs =
     [Txt (''WebDriver.get for '' @ quote), Url (url request),
      Txt (quote @ '' took more than WEBDRIVER_HANG_TIMEOUT (''), Secs secs, Txt ''s)'']"

text \<open>
  \<^verbatim>\<open>alarm_handler(signum, frame)\<close>, the closure \<^verbatim>\<open>download_request\<close> binds to
  \<^verbatim>\<open>SIGALRM\<close>; it closes over the handler and the request.
\<close>

definition alarm_handler :: "'f handler \<Rightarrow> 'l manager_ops \<Rightarrow> request \<Rightarrow> 'l world \<Rightarrow> 'l world" where
  "alarm_handler h ops request w =
     (case webdriver w of
        (wd, w1) \<Rightarrow>
          emit (Log INFO (msg_hang request (hang_timeout h)))
            (call_release ops None
              ((emit (SendSignal wd SIGTERM) w1)\<lparr>webdriver_attr := None\<rparr>)))"

text \<open>The \<^verbatim>\<open>except Exception, exception\<close> clause of \<^verbatim>\<open>_download_request\<close>.\<close>

definition except_clause ::
  "'f handler \<Rightarrow> request \<Rightarrow> exn \<Rightarrow> 'l world \<Rightarrow> 'f downloaded \<times> 'l world" where
  "except_clause h request exception w =
     (let w1 = (if truthy (hang_timeout h) then
                  emit (Alarm 0)
                    (emit (Log DEBUG [Txt ''FAIL: '', Obj (webdriver_attr w)])
                      (emit (Log DEBUG [Txt ''settings alarm to 0 on FAILURE'']) w))
                else w);
          exception' = exception\<lparr>page_source := Some blank_page\<rparr>;
          w2 = emit (Log ERROR (msg_error request exception')) w1
      in case webdriver w2 of
           (wd, w3) \<Rightarrow>
             (WebdriverResponse (url request) (Failure exception'),
              emit (Log DEBUG [Txt ''FAIL 2. THIS SHOULD BE WEBDRIVER: '', Obj (webdriver_attr w3)]) w3))"

text \<open>The \<^verbatim>\<open>else\<close> clause of \<^verbatim>\<open>_download_request\<close>.\<close>

definition else_clause :: "'f handler \<Rightarrow> request \<Rightarrow> 'l world \<Rightarrow> 'f downloaded \<times> 'l world" where
  "else_clause h request w =
     (let w1 = (if truthy (hang_timeout h) then
                  emit (Alarm 0)
                    (emit (Log DEBUG [Txt ''YEAH: '', Obj (webdriver_attr w)])
                      (emit (Log DEBUG [Txt ''settings alarm to 0 on SUCCESS'']) w))
                else w)
      in case webdriver w1 of
           (wd, w2) \<Rightarrow> (WebdriverResponse (url request) (Session wd), w2))"

text \<open>
  \<^verbatim>\<open>signal.alarm(seconds)\<close> converts its argument to a C \<^verbatim>\<open>int\<close>: for a Python
  integer outside that range it raises \<^verbatim>\<open>OverflowError\<close> and sets no alarm.
\<close>

definition alarm_accepts :: "int \<Rightarrow> bool" where
  "alarm_accepts n = (- 2147483648 \<le> n \<and> n \<le> 2147483647)"

definition signal_alarm :: "int \<Rightarrow> 'l world \<Rightarrow> error + 'l world" where
  "signal_alarm n w = (if alarm_accepts n then Inr (emit (Alarm n) w) else Inl OverflowError)"

text \<open>
  The \<^verbatim>\<open>try\<close> statement of \<^verbatim>\<open>_download_request\<close>. The outcome of the blocking
  \<^verbatim>\<open>webdriver.get\<close> is the argument \<^verbatim>\<open>got\<close>: \<^verbatim>\<open>None\<close> when it returns, the
  exception when it raises one. The \<^verbatim>\<open>finally\<close> clause runs last on both paths.
\<close>

definition try_statement ::
  "'f handler \<Rightarrow> 'l manager_ops \<Rightarrow> exn option \<Rightarrow> request \<Rightarrow> 'l world
     \<Rightarrow> (error + 'f downloaded) \<times> 'l world" where
  "try_statement h ops got request w =
     (case call_acquire ops request w of
        (a, w3) \<Rightarrow>
          (case webdriver w3 of
             (wd, w4) \<Rightarrow>
               (case (case got of
                        Some exception \<Rightarrow>
                          except_clause h request exception
                            (emit (WebdriverGet wd (url request) got) w4)
                      | None \<Rightarrow>
                          else_clause h request (emit (WebdriverGet wd (url request) got) w4)) of
                  (resp, w5) \<Rightarrow> (Inr resp, call_release ops None w5))))"

text \<open>
  \<^verbatim>\<open>_download_request(self, request, spider)\<close>. The hang timer is armed before the
  \<^verbatim>\<open>try\<close> statement: when \<^verbatim>\<open>signal.alarm\<close> raises, the exception leaves the function
  (the value \<^verbatim>\<open>Inl\<close>), and neither \<^verbatim>\<open>acquire\<close> nor the \<^verbatim>\<open>finally\<close> clause is
  reached.
\<close>

definition download_request_private ::
  "'f handler \<Rightarrow> 'l manager_ops \<Rightarrow> exn option \<Rightarrow> request \<Rightarrow> 'l world
     \<Rightarrow> (error + 'f downloaded) \<times> 'l world" where
  "download_request_private h ops got request w =
     (let w1 = emit (Log DEBUG (msg_downloading request)) w
      in case hang_timeout h of
           None \<Rightarrow> try_statement h ops got request w1
         | Some n \<Rightarrow>
             if truthy (Some n) then
               (case signal_alarm n w1 of
                  Inl err \<Rightarrow> (Inl err, w1)
                | Inr w2 \<Rightarrow> try_statement h ops got request w2)
             else try_statement h ops got request w1)"

text \<open>\<^verbatim>\<open>download_request(self, request, spider)\<close>.\<close>

definition download_request ::
  "'f handler \<Rightarrow> 'l manager_ops \<Rightarrow> exn option \<Rightarrow> request \<Rightarrow> 'l world
     \<Rightarrow> (error + 'f downloaded) \<times> 'l world" where
  "download_request h ops got request w =
     (if enabled h \<and> isinstance_WebdriverRequest request then
        (let w1 = (if truthy (hang_timeout h) then emit (SignalBind SIGALRM request) w else w)
         in if isinstance_WebdriverActionRequest request then (Inl NotImplementedError, w1)
            else download_request_private h ops got request w1)
      else (Inr (Fallback (fallback_handler h request)), w))"

section \<open>The access manager\<close>

text \<open>
  Modelled from the spec: \<^verbatim>\<open>manager.py\<close> (class \<^verbatim>\<open>WebdriverManager\<close>) is not among
  the sources. The definitions of this section follow the contract of the spec (3 and 4.1).
  The lock state is the pair \<^verbatim>\<open>held\<close>, \<^verbatim>\<open>held_by\<close>. The wait queue, a mapping from
  identity to queued request together with the FIFO order of the identities, is one
  association list: its keys in list order are the ordered sequence, its pairs the mapping.
  The identity of a request is its URL.
\<close>

record manager =
  held :: bool
  held_by :: "string option"
  wait_queue :: "(string \<times> request) list"

definition free_manager :: manager where
  "free_manager = \<lparr>held = False, held_by = None, wait_queue = []\<rparr>"

definition queued :: "manager \<Rightarrow> string list" where
  "queued m = map fst (wait_queue m)"

text \<open>Replacing the request stored under an identity already queued; the keys stay as they are.\<close>

fun restore :: "request \<Rightarrow> (string \<times> request) list \<Rightarrow> (string \<times> request) list" where
  "restore r [] = []"
| "restore r ((k, v) # q) = (if k = url r then (k, r) # q else (k, v) # restore r q)"

definition acquire :: "request \<Rightarrow> manager \<Rightarrow> acquired \<times> manager" where
  "acquire r m =
     (if \<not> held m then (Admitted r, m\<lparr>held := True, held_by := Some (url r)\<rparr>)
      else if url r \<in> set (queued m) then (WAITING, m\<lparr>wait_queue := restore r (wait_queue m)\<rparr>)
      else (WAITING, m\<lparr>wait_queue := wait_queue m @ [(url r, r)]\<rparr>))"

definition release :: "string \<Rightarrow> manager \<Rightarrow> manager" where
  "release ident m =
     (if held m \<and> held_by m = Some ident then m\<lparr>held := False, held_by := None\<rparr> else m)"

definition acquire_next :: "manager \<Rightarrow> acquired \<times> manager" where
  "acquire_next m =
     (case wait_queue m of
        [] \<Rightarrow> (WAITING, m)
      | (k, r) # q \<Rightarrow> acquire r (m\<lparr>wait_queue := q\<rparr>))"

text \<open>
  The lock part of \<^verbatim>\<open>force_release_and_reset\<close>: it clears the lock state whoever holds
  it and does not touch the wait queue. (Discarding the resource handle is what
  \<^verbatim>\<open>download.py\<close> does itself, by assigning \<^verbatim>\<open>_webdriver\<close>.)
\<close>

definition force_release :: "manager \<Rightarrow> manager" where
  "force_release m = m\<lparr>held := False, held_by := None\<rparr>"

text \<open>
  The manager of the spec as the parameter of the middleware and the download handler. A
  \<^verbatim>\<open>release\<close> that is passed no identity cannot be compared with the holder; the only
  callers that pass none are the hang recovery and the cleanup of the download handler,
  which the spec (4.1, 4.4) describes as freeing the lock, so it is taken as the forced
  release.
\<close>

definition spec_manager :: "manager manager_ops" where
  "spec_manager =
     \<lparr>op_acquire = acquire,
      op_release = (\<lambda>ident m. case ident of Some i \<Rightarrow> release i m | None \<Rightarrow> force_release m),
      op_acquire_next = acquire_next\<rparr>"

subsection \<open>Sequences of manager operations\<close>

datatype mop = Acquire request | Release string | AcquireNext

text \<open>One operation: what it returns (\<^verbatim>\<open>release\<close> returns nothing) and the state it leaves.\<close>

fun apply_op :: "mop \<Rightarrow> manager \<Rightarrow> acquired option \<times> manager" where
  "apply_op (Acquire r) m = (case acquire r m of (a, m') \<Rightarrow> (Some a, m'))"
| "apply_op (Release i) m = (None, release i m)"
| "apply_op AcquireNext m = (case acquire_next m of (a, m') \<Rightarrow> (Some a, m'))"

fun run :: "mop list \<Rightarrow> manager \<Rightarrow> manager" where
  "run [] m = m"
| "run (x # xs) m = run xs (snd (apply_op x m))"

text \<open>The identities \<^verbatim>\<open>acquire_next\<close> admitted during a run, in the order of admission.\<close>

fun admitted_by_next :: "mop list \<Rightarrow> manager \<Rightarrow> string list" where
  "admitted_by_next [] m = []"
| "admitted_by_next (AcquireNext # xs) m =
     (case acquire_next m of
        (Admitted r, m') \<Rightarrow> url r # admitted_by_next xs m'
      | (WAITING, m') \<Rightarrow> admitted_by_next xs m')"
| "admitted_by_next (x # xs) m = admitted_by_next xs (snd (apply_op x m))"

text \<open>
  The identities that entered the wait queue during a run, in the order of their first
  admission attempt: an \<^verbatim>\<open>acquire\<close> call of the run that returned \<^verbatim>\<open>WAITING\<close> for an
  identity not waiting at that moment.
\<close>

fun first_attempts :: "mop list \<Rightarrow> manager \<Rightarrow> string list" where
  "first_attempts [] m = []"
| "first_attempts (Acquire r # xs) m =
     (if held m \<and> url r \<notin> set (queued m) then url r # first_attempts xs (snd (acquire r m))
      else first_attempts xs (snd (acquire r m)))"
| "first_attempts (x # xs) m = first_attempts xs (snd (apply_op x m))"

text \<open>Whether every \<^verbatim>\<open>acquire_next\<close> of a run is called with the lock free.\<close>

fun next_only_when_free :: "mop list \<Rightarrow> manager \<Rightarrow> bool" where
  "next_only_when_free [] m = True"
| "next_only_when_free (AcquireNext # xs) m =
     (\<not> held m \<and> next_only_when_free xs (snd (acquire_next m)))"
| "next_only_when_free (x # xs) m = next_only_when_free xs (snd (apply_op x m))"

text \<open>
  The well-formedness of the wait queue (spec, 3): no identity twice, every entry under
  its own identity.
\<close>

definition queue_ok :: "manager \<Rightarrow> bool" where
  "queue_ok m = (distinct (queued m) \<and> list_all (\<lambda>(k, r). url r = k) (wait_queue m))"

section \<open>Reading the event log\<close>

text \<open>The events emitted between an earlier state and a later one.\<close>

definition since :: "'l world \<Rightarrow> 'l world \<Rightarrow> event list" where
  "since w w' = drop (length (events w)) (events w')"

text \<open>The requests \<^verbatim>\<open>acquire\<close> was called with, and what it answered, in call order.\<close>

fun acquire_calls :: "event list \<Rightarrow> request list" where
  "acquire_calls [] = []"
| "acquire_calls (MgrAcquire r a # es) = r # acquire_calls es"
| "acquire_calls (e # es) = acquire_calls es"

fun acquire_answers :: "event list \<Rightarrow> acquired list" where
  "acquire_answers [] = []"
| "acquire_answers (MgrAcquire r a # es) = a # acquire_answers es"
| "acquire_answers (e # es) = acquire_answers es"

fun timer_event :: "event \<Rightarrow> bool" where
  "timer_event (Alarm n) = True"
| "timer_event (SignalBind s r) = True"
| "timer_event e = False"

text \<open>The identities \<^verbatim>\<open>release\<close> was called with (\<^verbatim>\<open>None\<close>: called with none), in call order.\<close>

fun release_calls :: "event list \<Rightarrow> string option list" where
  "release_calls [] = []"
| "release_calls (MgrRelease i # es) = i # release_calls es"
| "release_calls (e # es) = release_calls es"

text \<open>
  Whether arming the hang timer returns: no hang timeout is configured, or
  \<^verbatim>\<open>signal.alarm\<close> accepts the one that is.
\<close>

fun alarm_returns :: "int option \<Rightarrow> bool" where
  "alarm_returns None = True"
| "alarm_returns (Some n) = alarm_accepts n"

text \<open>The call that arms the hang timer, when a hang timeout is configured.\<close>

fun armed :: "int option \<Rightarrow> event list" where
  "armed None = []"
| "armed (Some n) = (if n \<noteq> 0 then [Alarm n] else [])"

text \<open>A resource-bound element is a webdriver request; an action-kind one, its action subclass.\<close>

fun resource_bound :: "element \<Rightarrow> bool" where
  "resource_bound (Item i) = False"
| "resource_bound (Req r) = isinstance_WebdriverRequest r"

fun action_kind :: "element \<Rightarrow> bool" where
  "action_kind (Item i) = False"
| "action_kind (Req r) = (isinstance_WebdriverRequest r \<and> isinstance_WebdriverActionRequest r)"

fun resource_requests :: "element list \<Rightarrow> request list" where
  "resource_requests [] = []"
| "resource_requests (Item i # xs) = resource_requests xs"
| "resource_requests (Req r # xs) =
     (if isinstance_WebdriverRequest r then r # resource_requests xs else resource_requests xs)"

text \<open>
  The admission filter in the words of the spec (4.3), over a batch and the answers
  \<^verbatim>\<open>acquire\<close> gave for its resource-bound elements in order: an element that is not
  resource-bound is forwarded; a resource-bound one is dropped when the answer is
  \<^verbatim>\<open>WAITING\<close> and forwarded unchanged otherwise.
\<close>

fun admission_filter :: "element list \<Rightarrow> acquired list \<Rightarrow> element list" where
  "admission_filter [] answers = []"
| "admission_filter (x # xs) answers =
     (if resource_bound x then
        (case answers of
           [] \<Rightarrow> []
         | WAITING # rest \<Rightarrow> admission_filter xs rest
         | Admitted r # rest \<Rightarrow> x # admission_filter xs rest)
      else x # admission_filter xs answers)"

section \<open>Example values\<close>

definition page :: "string \<Rightarrow> request" where
  "page u = \<lparr>url = u, cls = WebdriverRequest, dont_filter = False, meta = []\<rparr>"

definition action :: "string \<Rightarrow> request" where
  "action u = \<lparr>url = u, cls = WebdriverActionRequest, dont_filter = False, meta = []\<rparr>"

definition plain :: "string \<Rightarrow> request" where
  "plain u = \<lparr>url = u, cls = Request, dont_filter = False, meta = []\<rparr>"

definition world0 :: "manager \<Rightarrow> manager world" where
  "world0 m = \<lparr>lock = m, webdriver_attr = None, next_handle = 0, events = []\<rparr>"

definition held_manager :: "string \<Rightarrow> manager" where
  "held_manager u = \<lparr>held = True, held_by = Some u, wait_queue = []\<rparr>"

definition start_batch :: "element list" where
  "start_batch =
     [Req (page ''http://a''), Item ''x'', Req (page ''http://b''), Req (plain ''http://c'')]"

text \<open>A state in which the request for \<^verbatim>\<open>http://a\<close> holds the lock and session 0 is alive.\<close>

definition running_world :: "manager world" where
  "running_world =
     \<lparr>lock = held_manager ''http://a'', webdriver_attr = Some 0, next_handle = 1, events = []\<rparr>"

definition example_settings :: settings where
  "example_settings =
     \<lparr>WEBDRIVER_BROWSER = Some ''phantomjs'', WEBDRIVER_TIMEOUT = None,
      WEBDRIVER_HANG_TIMEOUT = Some 30\<rparr>"

definition disabled_settings :: settings where
  "disabled_settings =
     \<lparr>WEBDRIVER_BROWSER = None, WEBDRIVER_TIMEOUT = None, WEBDRIVER_HANG_TIMEOUT = Some 0\<rparr>"

definition untimed_settings :: settings where
  "untimed_settings =
     \<lparr>WEBDRIVER_BROWSER = Some ''phantomjs'', WEBDRIVER_TIMEOUT = None,
      WEBDRIVER_HANG_TIMEOUT = Some 0\<rparr>"

definition oversized_settings :: settings where
  "oversized_settings =
     \<lparr>WEBDRIVER_BROWSER = Some ''phantomjs'', WEBDRIVER_TIMEOUT = None,
      WEBDRIVER_HANG_TIMEOUT = Some 2147483648\<rparr>"

definition example_handler :: "unit handler" where
  "example_handler = init (\<lambda>r. ()) example_settings"

definition boom :: exn where
  "boom = \<lparr>exn_text = ''connection refused'', page_source = None\<rparr>"

text \<open>A manager whose lock is held by an identity while the given requests wait, in that order.\<close>

definition queued_manager :: "string \<Rightarrow> request list \<Rightarrow> manager" where
  "queued_manager u rs =
     \<lparr>held = True, held_by = Some u, wait_queue = map (\<lambda>r. (url r, r)) rs\<rparr>"

text \<open>
  Two sequences of manager operations. In the first, three identities are enqueued while
  \<^verbatim>\<open>http://x\<close> holds the lock (one of them twice) and every \<^verbatim>\<open>acquire_next\<close> follows
  the release of the holder. In the second, \<^verbatim>\<open>acquire_next\<close> is also called once while
  the lock is still held.
\<close>

definition fifo_demo :: "mop list" where
  "fifo_demo =
     [Acquire (page ''http://x''),
      Acquire (page ''http://a''), Acquire (page ''http://b''),
      Acquire ((page ''http://a'')\<lparr>meta := ''retry''\<rparr>), Acquire (page ''http://c''),
      Release ''http://x'', AcquireNext,
      Release ''http://a'', AcquireNext,
      Release ''http://b'', AcquireNext]"

definition rotation_demo :: "mop list" where
  "rotation_demo =
     [Acquire (page ''http://x''),
      Acquire (page ''http://a''), Acquire (page ''http://b''),
      AcquireNext,
      Release ''http://x'', AcquireNext]"

section \<open>Facts about the model\<close>

text \<open>The definitions that evaluating an example unfolds.\<close>

lemmas example_defs = page_def action_def plain_def world0_def held_manager_def free_manager_def
lemmas manager_defs = spec_manager_def acquire_def release_def acquire_next_def force_release_def queued_def
lemmas call_defs = call_acquire_def call_release_def call_acquire_next_def emit_def yield_def

lemma fst_yield: "fst (yield x g) = x # fst g"
  by (cases g) (simp add: yield_def)

lemma err_yield: "fst (snd (yield x g)) = fst (snd g)"
  by (cases g) (simp add: yield_def)

lemma world_yield: "snd (snd (yield x g)) = snd (snd g)"
  by (cases g) (simp add: yield_def)

lemma events_call_acquire:
  "events (snd (call_acquire ops r w)) = events w @ [MgrAcquire r (fst (op_acquire ops r (lock w)))]"
  by (simp add: call_acquire_def emit_def split: prod.splits)

lemma fst_call_acquire: "fst (call_acquire ops r w) = fst (op_acquire ops r (lock w))"
  by (simp add: call_acquire_def split: prod.splits)



lemma since_append: "events w' = events w @ new \<Longrightarrow> since w w' = new"
  by (simp add: since_def)

lemma process_requests_filter:
  assumes "start \<longrightarrow> list_all (\<lambda>x. \<not> action_kind x) items"
    and "\<And>r l. fst (op_acquire ops r l) = WAITING \<or> fst (op_acquire ops r l) = Admitted r"
  shows "\<exists>new. events (snd (snd (process_requests ops start items w))) = events w @ new
           \<and> acquire_calls new = resource_requests items
           \<and> fst (process_requests ops start items w) = admission_filter items (acquire_answers new)
           \<and> fst (snd (process_requests ops start items w)) = None"
  using assms(1)
proof (induction items arbitrary: w)
  case Nil
  then show ?case by simp
next
  case (Cons x xs)
  have tl: "start \<longrightarrow> list_all (\<lambda>x. \<not> action_kind x) xs"
    using Cons.prems by simp
  show ?case
  proof (cases x)
    case (Item i)
    from Cons.IH[OF tl, of w] obtain new where
      "events (snd (snd (process_requests ops start xs w))) = events w @ new"
      "acquire_calls new = resource_requests xs"
      "fst (process_requests ops start xs w) = admission_filter xs (acquire_answers new)"
      "fst (snd (process_requests ops start xs w)) = None"
      by blast
    with Item show ?thesis
      by (simp add: fst_yield err_yield world_yield)
  next
    case (Req r)
    show ?thesis
    proof (cases "isinstance_WebdriverRequest r")
      case False
      from Cons.IH[OF tl, of w] obtain new where
        "events (snd (snd (process_requests ops start xs w))) = events w @ new"
        "acquire_calls new = resource_requests xs"
        "fst (process_requests ops start xs w) = admission_filter xs (acquire_answers new)"
        "fst (snd (process_requests ops start xs w)) = None"
        by blast
      with Req False show ?thesis
        by (simp add: fst_yield err_yield world_yield)
    next
      case True
      have noact: "\<not> (start \<and> isinstance_WebdriverActionRequest r)"
        using Cons.prems Req True by auto
      obtain a w1 where ca: "call_acquire ops r w = (a, w1)"
        by (cases "call_acquire ops r w")
      have a: "a = fst (op_acquire ops r (lock w))"
        using ca fst_call_acquire[of ops r w] by simp
      have ev1: "events w1 = events w @ [MgrAcquire r a]"
        using ca events_call_acquire[of ops r w] a by simp
      from Cons.IH[OF tl, of w1] obtain new where new:
        "events (snd (snd (process_requests ops start xs w1))) = events w1 @ new"
        "acquire_calls new = resource_requests xs"
        "fst (process_requests ops start xs w1) = admission_filter xs (acquire_answers new)"
        "fst (snd (process_requests ops start xs w1)) = None"
        by blast
      have own: "a = WAITING \<or> a = Admitted r"
        using assms(2)[of r "lock w"] a by simp
      let ?new = "MgrAcquire r a # new"
      have "events (snd (snd (process_requests ops start (x # xs) w))) = events w @ ?new"
        using Req True noact ca new(1) ev1 own by (auto simp: world_yield)
      moreover have "acquire_calls ?new = resource_requests (x # xs)"
        using Req True new(2) by simp
      moreover have "fst (process_requests ops start (x # xs) w) = admission_filter (x # xs) (acquire_answers ?new)"
        using Req True noact ca new(3) own by (auto simp: fst_yield)
      moreover have "fst (snd (process_requests ops start (x # xs) w)) = None"
        using Req True noact ca new(4) own by (auto simp: err_yield)
      ultimately show ?thesis by blast
    qed
  qed
qed

lemma admission_filter_keeps_other:
  "length answers = length (resource_requests xs) \<Longrightarrow>
   filter (\<lambda>x. \<not> resource_bound x) (admission_filter xs answers) = filter (\<lambda>x. \<not> resource_bound x) xs"
proof (induction xs arbitrary: answers)
  case Nil
  then show ?case by simp
next
  case (Cons x xs)
  then show ?case
    by (cases x) (auto split: list.splits acquired.splits)
qed

lemma admission_filter_subseq: "subseq (admission_filter xs answers) xs"
proof (induction xs arbitrary: answers)
  case Nil
  then show ?case by simp
next
  case (Cons x xs)
  then show ?case
    by (auto split: list.splits acquired.splits)
qed

lemma length_acquire_calls: "length (acquire_answers es) = length (acquire_calls es)"
  by (induction es rule: acquire_calls.induct) simp_all

section \<open>The spider middleware\<close>

text \<open>
  Claim C4, as amended. For every batch of start-of-crawl items that holds no action-kind
  request, and a manager whose \<^verbatim>\<open>acquire\<close> answers \<^verbatim>\<open>WAITING\<close> or the request it was
  given (spec, 4.1), \<^verbatim>\<open>process_start_requests\<close> raises nothing; it calls
  \<^verbatim>\<open>acquire\<close> once for each resource-bound item, in batch order; what it yields is the
  batch without exactly the resource-bound items that were answered \<^verbatim>\<open>WAITING\<close>, every
  other item unchanged; so the items that are not resource-bound are all forwarded, in
  their original order.
\<close>

theorem start_requests_admission:
  assumes "list_all (\<lambda>x. \<not> action_kind x) start_requests"
    and "\<And>r l. fst (op_acquire ops r l) = WAITING \<or> fst (op_acquire ops r l) = Admitted r"
    and "process_start_requests ops start_requests w = (out, err, w')"
  shows "err = None
       \<and> acquire_calls (since w w') = resource_requests start_requests
       \<and> out = admission_filter start_requests (acquire_answers (since w w'))
       \<and> filter (\<lambda>x. \<not> resource_bound x) out = filter (\<lambda>x. \<not> resource_bound x) start_requests
       \<and> subseq out start_requests"
proof -
  from process_requests_filter[of True start_requests ops w, OF _ assms(2)] assms(1)
  obtain new where new:
    "events (snd (snd (process_requests ops True start_requests w))) = events w @ new"
    "acquire_calls new = resource_requests start_requests"
    "fst (process_requests ops True start_requests w) = admission_filter start_requests (acquire_answers new)"
    "fst (snd (process_requests ops True start_requests w)) = None"
    by blast
  have run: "process_requests ops True start_requests w = (out, err, w')"
    using assms(3) by (simp add: process_start_requests_def)
  have s: "since w w' = new"
    using new(1) run by (simp add: since_append)
  have len: "length (acquire_answers new) = length (resource_requests start_requests)"
    using new(2) length_acquire_calls[of new] by simp
  have out: "out = admission_filter start_requests (acquire_answers new)"
    using new(3) run by simp
  show ?thesis
    using new(2,4) run s out admission_filter_keeps_other[OF len] admission_filter_subseq
    by simp
qed

lemma spec_manager_answers_own_request:
  "fst (op_acquire spec_manager r l) = WAITING \<or> fst (op_acquire spec_manager r l) = Admitted r"
  by (simp add: spec_manager_def acquire_def)

text \<open>
  The theorem at a batch of two webdriver requests, an item and a plain request, with the
  lock free: the first webdriver request is admitted, the second is queued and dropped.
\<close>

theorem start_requests_admission_witness:
  "fst (process_start_requests spec_manager start_batch (world0 free_manager))
     = [Req (page ''http://a''), Item ''x'', Req (plain ''http://c'')]
   \<and> acquire_answers (events (snd (snd (process_start_requests spec_manager start_batch (world0 free_manager)))))
     = [Admitted (page ''http://a''), WAITING]"
proof -
  have h1: "list_all (\<lambda>x. \<not> action_kind x) start_batch"
    by (simp add: start_batch_def example_defs)
  obtain out err w' where run:
    "process_start_requests spec_manager start_batch (world0 free_manager) = (out, err, w')"
    by (cases "process_start_requests spec_manager start_batch (world0 free_manager)")
  have "events (snd (snd (process_start_requests spec_manager start_batch (world0 free_manager))))
          = [MgrAcquire (page ''http://a'') (Admitted (page ''http://a'')),
             MgrAcquire (page ''http://b'') WAITING]"
    by (simp add: process_start_requests_def start_batch_def example_defs manager_defs call_defs)
  then have ev: "events w' = [MgrAcquire (page ''http://a'') (Admitted (page ''http://a'')),
                              MgrAcquire (page ''http://b'') WAITING]"
    by (simp add: run)
  have s: "since (world0 free_manager) w' = events w'"
    by (simp add: since_def world0_def)
  from start_requests_admission[OF h1 spec_manager_answers_own_request run]
  have "out = admission_filter start_batch (acquire_answers (since (world0 free_manager) w'))"
    by simp
  then show ?thesis
    using run ev s by (simp add: start_batch_def example_defs)
qed

text \<open>
  Claim C4 as stated fails on a batch that holds an action-kind request: the generator
  raises at that request, \<^verbatim>\<open>acquire\<close> is not called for it, and the item behind it
  is never forwarded.
\<close>

theorem start_requests_action_counterexample:
  "process_start_requests spec_manager [Req (action ''http://b''), Item ''x''] (world0 free_manager)
     = ([], Some (IgnoreRequest error_msg), world0 free_manager)"
  by (simp add: process_start_requests_def example_defs)

lemma process_requests_events_extend:
  "\<exists>new. events (snd (snd (process_requests ops start items w))) = events w @ new
      \<and> set (acquire_calls new) \<subseteq> {r. Req r \<in> set items \<and> \<not> (start \<and> isinstance_WebdriverActionRequest r)}"
proof (induction items arbitrary: w)
  case Nil
  then show ?case by simp
next
  case (Cons x xs)
  show ?case
  proof (cases x)
    case (Item i)
    from Cons.IH[of w] obtain new where
      "events (snd (snd (process_requests ops start xs w))) = events w @ new"
      "set (acquire_calls new) \<subseteq> {r. Req r \<in> set xs \<and> \<not> (start \<and> isinstance_WebdriverActionRequest r)}"
      by blast
    with Item show ?thesis
      by (auto simp: world_yield)
  next
    case (Req r)
    show ?thesis
    proof (cases "isinstance_WebdriverRequest r")
      case False
      from Cons.IH[of w] obtain new where
        "events (snd (snd (process_requests ops start xs w))) = events w @ new"
        "set (acquire_calls new) \<subseteq> {r. Req r \<in> set xs \<and> \<not> (start \<and> isinstance_WebdriverActionRequest r)}"
        by blast
      with Req False show ?thesis
        by (auto simp: world_yield)
    next
      case True
      show ?thesis
      proof (cases "start \<and> isinstance_WebdriverActionRequest r")
        case True
        with Req \<open>isinstance_WebdriverRequest r\<close> show ?thesis by simp
      next
        case False
        obtain a w1 where ca: "call_acquire ops r w = (a, w1)"
          by (cases "call_acquire ops r w")
        have ev1: "events w1 = events w @ [MgrAcquire r a]"
          using ca events_call_acquire[of ops r w] fst_call_acquire[of ops r w] by simp
        from Cons.IH[of w1] obtain new where new:
          "events (snd (snd (process_requests ops start xs w1))) = events w1 @ new"
          "set (acquire_calls new) \<subseteq> {r. Req r \<in> set xs \<and> \<not> (start \<and> isinstance_WebdriverActionRequest r)}"
          by blast
        let ?new = "MgrAcquire r a # new"
        have "events (snd (snd (process_requests ops start (x # xs) w))) = events w @ ?new"
          using Req \<open>isinstance_WebdriverRequest r\<close> False ca new(1) ev1
          by (cases a) (auto simp: world_yield)
        moreover have "set (acquire_calls ?new) \<subseteq> {r'. Req r' \<in> set (x # xs) \<and> \<not> (start \<and> isinstance_WebdriverActionRequest r')}"
          using Req False new(2) by auto
        ultimately show ?thesis by blast
      qed
    qed
  qed
qed

lemma process_requests_append_action:
  assumes "isinstance_WebdriverRequest a" "isinstance_WebdriverActionRequest a"
    and "process_requests ops True pre w = (out, None, w')"
  shows "process_requests ops True (pre @ Req a # post) w = (out, Some (IgnoreRequest error_msg), w')"
  using assms(3)
proof (induction pre arbitrary: w out)
  case Nil
  then show ?case using assms(1,2) by simp
next
  case (Cons x xs)
  then show ?case
    by (cases x) (auto simp: yield_def split: prod.splits acquired.splits if_splits)
qed

text \<open>
  Claim C7. When an action-kind webdriver request stands among the start requests,
  behind items that were processed without a rejection, \<^verbatim>\<open>process_start_requests\<close>
  raises \<^verbatim>\<open>IgnoreRequest\<close> at it; what was yielded and the state (lock, wait queue and
  event log) are those the items before it left, and \<^verbatim>\<open>acquire\<close> was not called with
  the rejected request.
\<close>

theorem start_action_request_rejected:
  assumes "isinstance_WebdriverActionRequest a"
    and "process_start_requests ops pre w = (out, None, w')"
  shows "process_start_requests ops (pre @ Req a # post) w = (out, Some (IgnoreRequest error_msg), w')
       \<and> a \<notin> set (acquire_calls (since w w'))"
proof -
  have wd: "isinstance_WebdriverRequest a"
    using assms(1) by simp
  have run: "process_requests ops True pre w = (out, None, w')"
    using assms(2) by (simp add: process_start_requests_def)
  from process_requests_events_extend[of ops True pre w] run obtain new where new:
    "events w' = events w @ new"
    "set (acquire_calls new) \<subseteq> {r. Req r \<in> set pre \<and> \<not> (True \<and> isinstance_WebdriverActionRequest r)}"
    by auto
  have "a \<notin> set (acquire_calls new)"
    using new(2) assms(1) by auto
  then show ?thesis
    using process_requests_append_action[OF wd assms(1) run, of post] new(1)
    by (simp add: process_start_requests_def since_append)
qed

text \<open>The theorem at a batch whose third element is an action request.\<close>

theorem start_action_request_rejected_witness:
  "process_start_requests spec_manager
      ([Req (page ''http://a''), Item ''x''] @ Req (action ''http://b'') # [Req (page ''http://c'')])
      (world0 free_manager)
    = ([Req (page ''http://a''), Item ''x''], Some (IgnoreRequest error_msg),
       \<lparr>lock = \<lparr>held = True, held_by = Some ''http://a'', wait_queue = []\<rparr>,
        webdriver_attr = None, next_handle = 0,
        events = [MgrAcquire (page ''http://a'') (Admitted (page ''http://a''))]\<rparr>)"
proof -
  have h1: "isinstance_WebdriverActionRequest (action ''http://b'')"
    by (simp add: action_def)
  have h2: "process_start_requests spec_manager [Req (page ''http://a''), Item ''x''] (world0 free_manager)
    = ([Req (page ''http://a''), Item ''x''], None,
       \<lparr>lock = \<lparr>held = True, held_by = Some ''http://a'', wait_queue = []\<rparr>,
        webdriver_attr = None, next_handle = 0,
        events = [MgrAcquire (page ''http://a'') (Admitted (page ''http://a''))]\<rparr>)"
    by (simp add: process_start_requests_def example_defs manager_defs call_defs)
  from start_action_request_rejected[OF h1 h2] show ?thesis by simp
qed

text \<open>Without the \<^verbatim>\<open>start\<close> flag the admission filter raises nothing.\<close>

lemma process_requests_no_error:
  "fst (snd (process_requests ops False items w)) = None"
proof (induction items arbitrary: w)
  case Nil
  then show ?case by simp
next
  case (Cons x xs)
  show ?case
  proof (cases x)
    case (Item i)
    then show ?thesis using Cons.IH by (simp add: err_yield)
  next
    case (Req r)
    then show ?thesis using Cons.IH
      by (simp add: err_yield split: prod.splits acquired.splits)
  qed
qed

text \<open>
  Claim C3. For a response whose request is a webdriver request,
  \<^verbatim>\<open>process_spider_output\<close> first yields what the admission filter yields for the spider's
  result; then, in the state the filter left, it calls \<^verbatim>\<open>release\<close> with the URL of the
  response's request and after it \<^verbatim>\<open>acquire_next\<close>; when \<^verbatim>\<open>acquire_next\<close> answers a
  request, that request is yielded last with \<^verbatim>\<open>dont_filter\<close> set, and when it answers
  \<^verbatim>\<open>WAITING\<close> nothing more is yielded. Nothing is raised.
\<close>

theorem spider_output_release_then_next:
  assumes "isinstance_WebdriverRequest (response_request response)"
    and "process_requests ops False result w = (out, err, w1)"
    and "op_acquire_next ops (op_release ops (Some (url (response_request response))) (lock w1)) = (nxt, l2)"
  shows "process_spider_output ops response result w =
           (out @ (case nxt of
                     WAITING \<Rightarrow> []
                   | Admitted next_request \<Rightarrow> [Req (next_request\<lparr>dont_filter := True\<rparr>)]),
            None,
            w1\<lparr>lock := l2,
               events := events w1
                 @ [MgrRelease (Some (url (response_request response))), MgrAcquireNext nxt]\<rparr>)"
proof -
  have "err = None"
    using process_requests_no_error[of ops result w] assms(2) by simp
  then show ?thesis
    using assms
    by (cases nxt)
       (simp_all add: process_spider_output_def call_release_def call_acquire_next_def emit_def)
qed

text \<open>
  The theorem at a response for \<^verbatim>\<open>http://a\<close>, which holds the lock: once with
  \<^verbatim>\<open>http://b\<close> waiting, which is re-emitted, and once with nothing waiting.
\<close>

theorem spider_output_release_then_next_witness:
  "fst (process_spider_output spec_manager \<lparr>response_request = page ''http://a''\<rparr>
          [Item ''x'', Req (page ''http://c'')]
          (world0 (queued_manager ''http://a'' [page ''http://b''])))
     = [Item ''x'', Req ((page ''http://b'')\<lparr>dont_filter := True\<rparr>)]
   \<and> fst (process_spider_output spec_manager \<lparr>response_request = page ''http://a''\<rparr>
          [Item ''x'']
          (world0 (held_manager ''http://a'')))
     = [Item ''x'']"
proof -
  let ?resp = "\<lparr>response_request = page ''http://a''\<rparr>"
  have h1: "isinstance_WebdriverRequest (response_request ?resp)"
    by (simp add: page_def)
  have h2: "process_requests spec_manager False [Item ''x'', Req (page ''http://c'')]
              (world0 (queued_manager ''http://a'' [page ''http://b'']))
            = ([Item ''x''], None,
               \<lparr>lock = queued_manager ''http://a'' [page ''http://b'', page ''http://c''],
                webdriver_attr = None, next_handle = 0,
                events = [MgrAcquire (page ''http://c'') WAITING]\<rparr>)"
    by (simp add: example_defs manager_defs call_defs queued_manager_def)
  have h3: "op_acquire_next spec_manager
              (op_release spec_manager (Some (url (response_request ?resp)))
                 (lock \<lparr>lock = queued_manager ''http://a'' [page ''http://b'', page ''http://c''],
                        webdriver_attr = None, next_handle = 0,
                        events = [MgrAcquire (page ''http://c'') WAITING]\<rparr>))
            = (Admitted (page ''http://b''),
               \<lparr>held = True, held_by = Some ''http://b'',
                wait_queue = [(''http://c'', page ''http://c'')]\<rparr>)"
    by (simp add: example_defs manager_defs queued_manager_def)
  have h4: "process_requests spec_manager False [Item ''x''] (world0 (held_manager ''http://a''))
            = ([Item ''x''], None, world0 (held_manager ''http://a''))"
    by (simp add: call_defs)
  have h5: "op_acquire_next spec_manager
              (op_release spec_manager (Some (url (response_request ?resp)))
                 (lock (world0 (held_manager ''http://a''))))
            = (WAITING, free_manager)"
    by (simp add: example_defs manager_defs)
  from spider_output_release_then_next[OF h1 h2 h3] spider_output_release_then_next[OF h1 h4 h5]
  show ?thesis by simp
qed

text \<open>
  What \<^verbatim>\<open>process_spider_exception\<close> does for a response whose request is a webdriver
  request, whatever the manager: it calls \<^verbatim>\<open>release\<close> with the URL of that request,
  then \<^verbatim>\<open>acquire_next\<close>, and returns a list of one element, the answer of
  \<^verbatim>\<open>acquire_next\<close> as it is.
\<close>

lemma spider_exception_release_then_next:
  assumes "isinstance_WebdriverRequest (response_request response)"
    and "op_acquire_next ops (op_release ops (Some (url (response_request response))) (lock w)) = (nxt, l2)"
  shows "process_spider_exception ops response exception w =
           (Some [nxt],
            w\<lparr>lock := l2,
              events := events w
                @ [MgrRelease (Some (url (response_request response))), MgrAcquireNext nxt]\<rparr>)"
  using assms
  by (simp add: process_spider_exception_def call_release_def call_acquire_next_def emit_def)

text \<open>
  Claim C5. The claim says the exception hook returns a single-element sequence that
  holds the next request to dispatch, and the docstring of \<^verbatim>\<open>process_spider_exception\<close>
  says it feeds the scheduler with the next request from the queue. At a failure for the
  request that holds the lock, with nothing waiting, the hook calls \<^verbatim>\<open>release\<close> with the
  URL and then \<^verbatim>\<open>acquire_next\<close>, which answers the sentinel \<^verbatim>\<open>WAITING\<close>; the list it
  returns holds that sentinel and no request. \<^verbatim>\<open>process_spider_output\<close>, at the same
  state, tests the answer against \<^verbatim>\<open>WAITING\<close> and yields nothing.
\<close>

theorem spider_exception_returns_waiting:
  "process_spider_exception spec_manager \<lparr>response_request = page ''http://a''\<rparr> boom
          (world0 (held_manager ''http://a''))
     = (Some [WAITING],
        \<lparr>lock = free_manager, webdriver_attr = None, next_handle = 0,
         events = [MgrRelease (Some ''http://a''), MgrAcquireNext WAITING]\<rparr>)
   \<and> process_spider_output spec_manager \<lparr>response_request = page ''http://a''\<rparr> []
          (world0 (held_manager ''http://a''))
     = ([], None,
        \<lparr>lock = free_manager, webdriver_attr = None, next_handle = 0,
         events = [MgrRelease (Some ''http://a''), MgrAcquireNext WAITING]\<rparr>)"
  by (simp add: process_spider_exception_def process_spider_output_def example_defs manager_defs
        call_defs)

section \<open>The download handler\<close>

text \<open>The whole run of \<^verbatim>\<open>_download_request\<close>, on the path where \<^verbatim>\<open>webdriver.get\<close> raises and on the path where it returns.\<close>

lemmas download_defs = download_request_def download_request_private_def try_statement_def
  signal_alarm_def except_clause_def else_clause_def webdriver_def call_acquire_def
  call_release_def emit_def

lemma download_private_failure:
  "alarm_returns (hang_timeout h) \<Longrightarrow>
   download_request_private h ops (Some e) r w =
     (Inr (WebdriverResponse (url r) (Failure (e\<lparr>page_source := Some blank_page\<rparr>))),
      (snd (webdriver w))
       \<lparr>lock := op_release ops None (snd (op_acquire ops r (lock w))),
        events := events w
          @ [Log DEBUG (msg_downloading r)]
          @ armed (hang_timeout h)
          @ [MgrAcquire r (fst (op_acquire ops r (lock w))),
             WebdriverProperty (fst (webdriver w)),
             WebdriverGet (fst (webdriver w)) (url r) (Some e)]
          @ (if truthy (hang_timeout h) then
               [Log DEBUG [Txt ''settings alarm to 0 on FAILURE''],
                Log DEBUG [Txt ''FAIL: '', Obj (Some (fst (webdriver w)))],
                Alarm 0]
             else [])
          @ [Log ERROR (msg_error r (e\<lparr>page_source := Some blank_page\<rparr>)),
             WebdriverProperty (fst (webdriver w)),
             Log DEBUG [Txt ''FAIL 2. THIS SHOULD BE WEBDRIVER: '', Obj (Some (fst (webdriver w)))],
             MgrRelease None]\<rparr>)"
  by (cases "hang_timeout h"; cases "webdriver_attr w"; cases "op_acquire ops r (lock w)")
     (simp_all add: download_defs Let_def)

lemma download_private_success:
  "alarm_returns (hang_timeout h) \<Longrightarrow>
   download_request_private h ops None r w =
     (Inr (WebdriverResponse (url r) (Session (fst (webdriver w)))),
      (snd (webdriver w))
       \<lparr>lock := op_release ops None (snd (op_acquire ops r (lock w))),
        events := events w
          @ [Log DEBUG (msg_downloading r)]
          @ armed (hang_timeout h)
          @ [MgrAcquire r (fst (op_acquire ops r (lock w))),
             WebdriverProperty (fst (webdriver w)),
             WebdriverGet (fst (webdriver w)) (url r) None]
          @ (if truthy (hang_timeout h) then
               [Log DEBUG [Txt ''settings alarm to 0 on SUCCESS''],
                Log DEBUG [Txt ''YEAH: '', Obj (Some (fst (webdriver w)))],
                Alarm 0]
             else [])
          @ [WebdriverProperty (fst (webdriver w)),
             MgrRelease None]\<rparr>)"
  by (cases "hang_timeout h"; cases "webdriver_attr w"; cases "op_acquire ops r (lock w)")
     (simp_all add: download_defs Let_def)

lemma since_update: "since w (w'\<lparr>lock := l, events := events w @ new\<rparr>) = new"
  by (simp add: since_def)

lemma webdriver_attr_after: "webdriver_attr (snd (webdriver w)) = Some (fst (webdriver w))"
  by (cases "webdriver_attr w") (simp_all add: webdriver_def emit_def)

lemma release_calls_append: "release_calls (xs @ ys) = release_calls xs @ release_calls ys"
  by (induction xs rule: release_calls.induct) simp_all

lemma release_calls_armed: "release_calls (armed t) = []"
  by (cases t) simp_all



lemma filter_timer_armed: "filter timer_event (armed t) = armed t"
  by (cases t) simp_all

lemma armed_not_truthy: "\<not> truthy t \<Longrightarrow> armed t = []"
  by (cases t) simp_all

text \<open>
  Claim C8. The blocking \<^verbatim>\<open>webdriver.get\<close> is reached when arming the hang timer
  returned. When the blocking \<^verbatim>\<open>webdriver.get\<close> raises an exception, what
  \<^verbatim>\<open>_download_request\<close> does after that call is, in this order: when a hang timeout is
  configured, two debug lines and \<^verbatim>\<open>signal.alarm(0)\<close>; the error-level log line, which
  formats the exception with the blank page already attached as its \<^verbatim>\<open>page_source\<close>;
  one access to the \<^verbatim>\<open>webdriver\<close> property; a debug line; the release of the manager.
  It returns the failure response for the request's URL that carries that exception, and
  it leaves the manager with a session in place.
\<close>

theorem download_private_failure_path:
  assumes armed_ok: "alarm_returns (hang_timeout h)"
  shows "fst (download_request_private h ops (Some e) r w)
     = Inr (WebdriverResponse (url r) (Failure (e\<lparr>page_source := Some blank_page\<rparr>)))
   \<and> (\<exists>pre. since w (snd (download_request_private h ops (Some e) r w))
        = pre
          @ [WebdriverGet (fst (webdriver w)) (url r) (Some e)]
          @ (if truthy (hang_timeout h) then
               [Log DEBUG [Txt ''settings alarm to 0 on FAILURE''],
                Log DEBUG [Txt ''FAIL: '', Obj (Some (fst (webdriver w)))],
                Alarm 0]
             else [])
          @ [Log ERROR (msg_error r (e\<lparr>page_source := Some blank_page\<rparr>)),
             WebdriverProperty (fst (webdriver w)),
             Log DEBUG [Txt ''FAIL 2. THIS SHOULD BE WEBDRIVER: '', Obj (Some (fst (webdriver w)))],
             MgrRelease None])
   \<and> webdriver_attr (snd (download_request_private h ops (Some e) r w)) = Some (fst (webdriver w))"
proof -
  let ?pre = "[Log DEBUG (msg_downloading r)] @ armed (hang_timeout h)
              @ [MgrAcquire r (fst (op_acquire ops r (lock w))), WebdriverProperty (fst (webdriver w))]"
  have "since w (snd (download_request_private h ops (Some e) r w))
        = ?pre
          @ [WebdriverGet (fst (webdriver w)) (url r) (Some e)]
          @ (if truthy (hang_timeout h) then
               [Log DEBUG [Txt ''settings alarm to 0 on FAILURE''],
                Log DEBUG [Txt ''FAIL: '', Obj (Some (fst (webdriver w)))],
                Alarm 0]
             else [])
          @ [Log ERROR (msg_error r (e\<lparr>page_source := Some blank_page\<rparr>)),
             WebdriverProperty (fst (webdriver w)),
             Log DEBUG [Txt ''FAIL 2. THIS SHOULD BE WEBDRIVER: '', Obj (Some (fst (webdriver w)))],
             MgrRelease None]"
    by (simp add: download_private_failure[OF armed_ok] since_update)
  then show ?thesis
    by (simp add: download_private_failure[OF armed_ok] webdriver_attr_after)
qed

text \<open>The theorem at a connection error, with a hang timeout of 30 seconds.\<close>

theorem download_private_failure_path_witness:
  "fst (download_request_private example_handler spec_manager (Some boom) (page ''http://a'') running_world)
     = Inr (WebdriverResponse ''http://a'' (Failure \<lparr>exn_text = ''connection refused'', page_source = Some blank_page\<rparr>))
   \<and> webdriver_attr (snd (download_request_private example_handler spec_manager (Some boom) (page ''http://a'') running_world)) = Some 0"
proof -
  have armed_ok: "alarm_returns (hang_timeout example_handler)"
    by (simp add: example_handler_def init_def example_settings_def alarm_accepts_def)
  from download_private_failure_path[OF armed_ok, of spec_manager boom "page ''http://a''" running_world]
  show ?thesis
    by (simp add: boom_def page_def running_world_def webdriver_def)
qed

text \<open>
  Claim C1, as amended. For an enabled handler whose hang timeout is absent or a number
  of seconds \<^verbatim>\<open>signal.alarm\<close> accepts, and a webdriver request that is not an action
  request, \<^verbatim>\<open>download_request\<close> returns a \<^verbatim>\<open>WebdriverResponse\<close> for the request's URL
  on both outcomes of \<^verbatim>\<open>webdriver.get\<close>: with the manager's session when the call
  returned, with the exception when it raised. On both paths the manager's \<^verbatim>\<open>release\<close>
  is called exactly once, it is the last thing that happens, and the lock state is the one
  \<^verbatim>\<open>release\<close> left. (An exception is an instance of \<^verbatim>\<open>Exception\<close>, the class the
  \<^verbatim>\<open>except\<close> clause names; the operations of the manager are taken to return.)
\<close>

theorem download_returns_response:
  assumes "enabled h" and "isinstance_WebdriverRequest r" and "\<not> isinstance_WebdriverActionRequest r"
    and armed_ok: "alarm_returns (hang_timeout h)"
  shows "fst (download_request h ops got r w)
           = Inr (WebdriverResponse (url r)
                   (case got of
                      None \<Rightarrow> Session (fst (webdriver w))
                    | Some e \<Rightarrow> Failure (e\<lparr>page_source := Some blank_page\<rparr>)))
       \<and> webdriver_attr (snd (download_request h ops got r w)) = Some (fst (webdriver w))
       \<and> release_calls (since w (snd (download_request h ops got r w))) = [None]
       \<and> last (events (snd (download_request h ops got r w))) = MgrRelease None
       \<and> lock (snd (download_request h ops got r w))
           = op_release ops None (snd (op_acquire ops r (lock w)))"
proof -
  let ?w1 = "if truthy (hang_timeout h) then emit (SignalBind SIGALRM r) w else w"
  have dr: "\<And>g. download_request h ops g r w = download_request_private h ops g r ?w1"
    using assms(1-3) by (simp add: download_request_def)
  have wd: "webdriver ?w1 = (fst (webdriver w), (snd (webdriver w))\<lparr>events := events (snd (webdriver ?w1))\<rparr>)"
    by (cases "webdriver_attr w") (simp_all add: webdriver_def emit_def)
  have fstwd: "fst (webdriver ?w1) = fst (webdriver w)"
    using wd by (metis fst_conv)
  have lk: "lock ?w1 = lock w"
    by (simp add: emit_def)
  have ev: "\<exists>pre. events ?w1 = events w @ pre \<and> release_calls pre = []"
    by (simp add: emit_def)
  then obtain pre where pre: "events ?w1 = events w @ pre" "release_calls pre = []"
    by blast
  show ?thesis
  proof (cases got)
    case None
    then show ?thesis
      using pre
      by (simp add: dr download_private_success[OF armed_ok] fstwd lk webdriver_attr_after since_def
            release_calls_append release_calls_armed del: isinstance_WebdriverRequest.simps)
  next
    case (Some e)
    then show ?thesis
      using pre
      by (simp add: dr download_private_failure[OF armed_ok] fstwd lk webdriver_attr_after since_def
            release_calls_append release_calls_armed)
  qed
qed

text \<open>The theorem at both outcomes of \<^verbatim>\<open>webdriver.get\<close> for the request that holds the lock.\<close>

theorem download_returns_response_witness:
  "fst (download_request example_handler spec_manager None (page ''http://a'') running_world)
     = Inr (WebdriverResponse ''http://a'' (Session 0))
   \<and> fst (download_request example_handler spec_manager (Some boom) (page ''http://a'') running_world)
     = Inr (WebdriverResponse ''http://a'' (Failure (boom\<lparr>page_source := Some blank_page\<rparr>)))
   \<and> release_calls (since running_world
        (snd (download_request example_handler spec_manager (Some boom) (page ''http://a'') running_world)))
     = [None]"
proof -
  have h1: "enabled example_handler"
    by (simp add: example_handler_def init_def example_settings_def)
  have h2: "isinstance_WebdriverRequest (page ''http://a'')"
    by (simp add: page_def)
  have h3: "\<not> isinstance_WebdriverActionRequest (page ''http://a'')"
    by (simp add: page_def)
  have h4: "alarm_returns (hang_timeout example_handler)"
    by (simp add: example_handler_def init_def example_settings_def alarm_accepts_def)
  from download_returns_response[OF h1 h2 h3 h4, of spec_manager None running_world]
       download_returns_response[OF h1 h2 h3 h4, of spec_manager "Some boom" running_world]
  show ?thesis
    by (simp add: running_world_def webdriver_def page_def held_manager_def manager_defs)
qed

text \<open>
  Claim C1 as stated, for every enabled handler, fails: the hang timer is armed before the
  \<^verbatim>\<open>try\<close> statement, and with \<^verbatim>\<open>WEBDRIVER_HANG_TIMEOUT\<close> set to 2147483648
  \<^verbatim>\<open>signal.alarm\<close> raises \<^verbatim>\<open>OverflowError\<close>. The exception leaves
  \<^verbatim>\<open>download_request\<close>: no response is returned, \<^verbatim>\<open>release\<close> is not called, and the
  lock is as it was.
\<close>

theorem download_refused_alarm_counterexample:
  "download_request (init (\<lambda>r. ()) oversized_settings) spec_manager None (page ''http://a'')
       running_world
     = (Inl OverflowError,
        \<lparr>lock = held_manager ''http://a'', webdriver_attr = Some 0, next_handle = 1,
         events = [SignalBind SIGALRM (page ''http://a''),
                   Log DEBUG (msg_downloading (page ''http://a''))]\<rparr>)"
  by (simp add: download_defs init_def oversized_settings_def running_world_def page_def
        alarm_accepts_def)



text \<open>
  Claim C9. With \<^verbatim>\<open>WEBDRIVER_BROWSER\<close> absent or \<^verbatim>\<open>None\<close>, or for a request that is not
  a webdriver request, \<^verbatim>\<open>download_request\<close> returns what the fallback handler returns
  for the same request and leaves the state as it was: no call to the manager, the timer
  or the webdriver. With \<^verbatim>\<open>WEBDRIVER_HANG_TIMEOUT\<close> absent or 0, no signal handler is
  bound and no alarm is set. (With a hang timeout \<^verbatim>\<open>n\<close> other than 0 that
  \<^verbatim>\<open>signal.alarm\<close> accepts, a webdriver download binds the handler, sets the alarm to
  \<^verbatim>\<open>n\<close> and resets it to 0.)
\<close>

theorem fallback_and_timer_switches:
  "(WEBDRIVER_BROWSER s = None \<or> \<not> isinstance_WebdriverRequest r \<longrightarrow>
      download_request (init fallback s) ops got r w = (Inr (Fallback (fallback r)), w))
   \<and> (WEBDRIVER_HANG_TIMEOUT s = None \<or> WEBDRIVER_HANG_TIMEOUT s = Some 0 \<longrightarrow>
      filter timer_event (since w (snd (download_request (init fallback s) ops got r w))) = [])
   \<and> (WEBDRIVER_BROWSER s \<noteq> None \<and> isinstance_WebdriverRequest r
        \<and> \<not> isinstance_WebdriverActionRequest r \<and> WEBDRIVER_HANG_TIMEOUT s = Some n \<and> n \<noteq> 0
        \<and> alarm_accepts n \<longrightarrow>
      filter timer_event (since w (snd (download_request (init fallback s) ops got r w)))
        = [SignalBind SIGALRM r, Alarm n, Alarm 0])"
proof (intro conjI impI)
  assume "WEBDRIVER_BROWSER s = None \<or> \<not> isinstance_WebdriverRequest r"
  then show "download_request (init fallback s) ops got r w = (Inr (Fallback (fallback r)), w)"
    by (auto simp: download_request_def init_def)
next
  assume off: "WEBDRIVER_HANG_TIMEOUT s = None \<or> WEBDRIVER_HANG_TIMEOUT s = Some 0"
  then have nt: "\<not> truthy (hang_timeout (init fallback s))"
    by (auto simp: init_def)
  have ar: "alarm_returns (hang_timeout (init fallback s))"
    using off by (auto simp: init_def alarm_accepts_def)
  show "filter timer_event (since w (snd (download_request (init fallback s) ops got r w))) = []"
  proof (cases got)
    case None
    then show ?thesis
      using nt
      by (simp add: download_request_def download_private_success[OF ar] since_def armed_not_truthy
            del: isinstance_WebdriverRequest.simps isinstance_WebdriverActionRequest.simps)
  next
    case (Some e)
    then show ?thesis
      using nt
      by (simp add: download_request_def download_private_failure[OF ar] since_def armed_not_truthy
            del: isinstance_WebdriverRequest.simps isinstance_WebdriverActionRequest.simps)
  qed
next
  assume on: "WEBDRIVER_BROWSER s \<noteq> None \<and> isinstance_WebdriverRequest r
        \<and> \<not> isinstance_WebdriverActionRequest r \<and> WEBDRIVER_HANG_TIMEOUT s = Some n \<and> n \<noteq> 0
        \<and> alarm_accepts n"
  then have en: "enabled (init fallback s)" and ht: "hang_timeout (init fallback s) = Some n"
    by (simp_all add: init_def)
  have ar: "alarm_returns (hang_timeout (init fallback s))"
    using ht on by simp
  have tr: "truthy (hang_timeout (init fallback s))"
    using ht on by simp
  show "filter timer_event (since w (snd (download_request (init fallback s) ops got r w)))
        = [SignalBind SIGALRM r, Alarm n, Alarm 0]"
  proof (cases got)
    case None
    then show ?thesis
      using on en tr ht
      by (simp add: download_request_def download_private_success[OF ar] since_def emit_def Let_def
            del: isinstance_WebdriverRequest.simps isinstance_WebdriverActionRequest.simps)
  next
    case (Some e)
    then show ?thesis
      using on en tr ht
      by (simp add: download_request_def download_private_failure[OF ar] since_def emit_def Let_def
            del: isinstance_WebdriverRequest.simps isinstance_WebdriverActionRequest.simps)
  qed
qed

text \<open>The theorem at a disabled handler, at a hang timeout of 0 and at one of 30.\<close>

theorem fallback_and_timer_switches_witness:
  "download_request (init (\<lambda>r. url r) disabled_settings) spec_manager None (page ''http://a'') running_world
     = (Inr (Fallback ''http://a''), running_world)
   \<and> filter timer_event (since running_world
        (snd (download_request (init (\<lambda>r. url r) untimed_settings) spec_manager None (page ''http://a'') running_world)))
     = []
   \<and> filter timer_event (since running_world
        (snd (download_request (init (\<lambda>r. url r) example_settings) spec_manager None (page ''http://a'') running_world)))
     = [SignalBind SIGALRM (page ''http://a''), Alarm 30, Alarm 0]"
proof -
  have a: "WEBDRIVER_BROWSER disabled_settings = None \<or> \<not> isinstance_WebdriverRequest (page ''http://a'')"
    by (simp add: disabled_settings_def)
  have b: "WEBDRIVER_HANG_TIMEOUT untimed_settings = None \<or> WEBDRIVER_HANG_TIMEOUT untimed_settings = Some 0"
    by (simp add: untimed_settings_def)
  have c: "WEBDRIVER_BROWSER example_settings \<noteq> None \<and> isinstance_WebdriverRequest (page ''http://a'')
        \<and> \<not> isinstance_WebdriverActionRequest (page ''http://a'')
        \<and> WEBDRIVER_HANG_TIMEOUT example_settings = Some 30 \<and> (30::int) \<noteq> 0
        \<and> alarm_accepts 30"
    by (simp add: example_settings_def page_def alarm_accepts_def)
  from fallback_and_timer_switches[of disabled_settings "page ''http://a''" "\<lambda>r. url r" spec_manager None running_world 30]
       fallback_and_timer_switches[of untimed_settings "page ''http://a''" "\<lambda>r. url r" spec_manager None running_world 30]
       fallback_and_timer_switches[of example_settings "page ''http://a''" "\<lambda>r. url r" spec_manager None running_world 30]
       a b c
  show ?thesis
    by (simp add: page_def)
qed

text \<open>What \<^verbatim>\<open>alarm_handler\<close> does, for every handler, manager, request and state.\<close>

lemma alarm_handler_trace:
  "alarm_handler h ops r w =
     (snd (webdriver w))
       \<lparr>lock := op_release ops None (lock w),
        webdriver_attr := None,
        events := events w
          @ [WebdriverProperty (fst (webdriver w)),
             SendSignal (fst (webdriver w)) SIGTERM,
             MgrRelease None,
             Log INFO (msg_hang r (hang_timeout h))]\<rparr>"
  by (cases "webdriver_attr w") (simp_all add: alarm_handler_def webdriver_def call_release_def emit_def)

text \<open>
  Claim C2. When the alarm fires for the request that holds the lock, with session 0 alive
  and a hang timeout of 30, \<^verbatim>\<open>alarm_handler\<close> reads the \<^verbatim>\<open>webdriver\<close> property, sends
  \<^verbatim>\<open>SIGTERM\<close> to the process of its service, sets \<^verbatim>\<open>_webdriver\<close> to \<^verbatim>\<open>None\<close>,
  calls \<^verbatim>\<open>release\<close> with no identity, and logs the hang message. The level of that log
  line is \<^verbatim>\<open>INFO\<close>; the claim, and the comment above the call, say it is a warning.
\<close>

theorem alarm_handler_logs_at_info:
  "alarm_handler example_handler spec_manager (page ''http://a'') running_world
     = \<lparr>lock = free_manager, webdriver_attr = None, next_handle = 1,
        events = [WebdriverProperty 0, SendSignal 0 SIGTERM, MgrRelease None,
                  Log INFO (msg_hang (page ''http://a'') (Some 30))]\<rparr>"
  by (simp add: alarm_handler_trace running_world_def webdriver_def emit_def example_handler_def
        init_def example_settings_def manager_defs held_manager_def free_manager_def)

section \<open>The wait queue of the access manager\<close>

text \<open>Each operation keeps the wait queue well-formed.\<close>

lemma keys_restore: "map fst (restore r q) = map fst q"
  by (induction q) (auto)

lemma map_of_restore: "url r \<in> set (map fst q) \<Longrightarrow> map_of (restore r q) (url r) = Some r"
  by (induction q) force+

lemma snd_apply_op:
  "snd (apply_op (Acquire r) m) = snd (acquire r m)"
  "snd (apply_op (Release i) m) = release i m"
  "snd (apply_op AcquireNext m) = snd (acquire_next m)"
  by (simp_all split: prod.splits)

lemma list_all_restore:
  "list_all (\<lambda>(k, r). url r = k) q \<Longrightarrow> list_all (\<lambda>(k, r). url r = k) (restore r q)"
  by (induction q) (auto)

lemma queued_acquire:
  "queued (snd (acquire r m)) =
     (if held m \<and> url r \<notin> set (queued m) then queued m @ [url r] else queued m)"
  by (simp add: acquire_def queued_def keys_restore)

lemma queue_ok_acquire: "queue_ok m \<Longrightarrow> queue_ok (snd (acquire r m))"
  by (auto simp: queue_ok_def acquire_def queued_def keys_restore list_all_restore)

lemma queue_ok_release: "queue_ok m \<Longrightarrow> queue_ok (release i m)"
  by (simp add: queue_ok_def release_def queued_def)

lemma queue_ok_acquire_next: "queue_ok m \<Longrightarrow> queue_ok (snd (acquire_next m))"
proof (cases "wait_queue m")
  case Nil
  then show "queue_ok m \<Longrightarrow> queue_ok (snd (acquire_next m))"
    by (simp add: acquire_next_def)
next
  case (Cons p q)
  assume ok: "queue_ok m"
  obtain k r where p: "p = (k, r)" by (cases p)
  have "queue_ok (m\<lparr>wait_queue := q\<rparr>)"
    using ok Cons by (simp add: queue_ok_def queued_def)
  then show "queue_ok (snd (acquire_next m))"
    using Cons p by (simp add: acquire_next_def queue_ok_acquire)
qed

lemma queue_ok_apply_op: "queue_ok m \<Longrightarrow> queue_ok (snd (apply_op x m))"
  by (cases x)
     (simp_all add: snd_apply_op queue_ok_acquire queue_ok_release queue_ok_acquire_next
        del: apply_op.simps)

lemma queue_ok_run: "queue_ok m \<Longrightarrow> queue_ok (run xs m)"
  by (induction xs arbitrary: m) (simp_all add: queue_ok_apply_op)

lemma acquire_next_free:
  "\<not> held m \<Longrightarrow> wait_queue m = (k, r) # q \<Longrightarrow>
     acquire_next m = (Admitted r, m\<lparr>held := True, held_by := Some (url r), wait_queue := q\<rparr>)"
  by (simp add: acquire_next_def acquire_def)

lemma acquire_next_empty: "wait_queue m = [] \<Longrightarrow> acquire_next m = (WAITING, m)"
  by (simp add: acquire_next_def)

text \<open>
  The queue as a conservation law: what \<^verbatim>\<open>acquire_next\<close> admitted, followed by what still
  waits, is what waited at the start followed by what arrived.
\<close>

lemma fifo_run:
  "queue_ok m \<Longrightarrow> next_only_when_free xs m \<Longrightarrow>
     admitted_by_next xs m @ queued (run xs m) = queued m @ first_attempts xs m"
proof (induction xs arbitrary: m)
  case Nil
  then show ?case by simp
next
  case (Cons x xs)
  show ?case
  proof (cases x)
    case (Acquire r)
    let ?m' = "snd (acquire r m)"
    have ok: "queue_ok ?m'" using Cons.prems(1) by (rule queue_ok_acquire)
    have g: "next_only_when_free xs ?m'"
      using Cons.prems(2) Acquire by (simp add: snd_apply_op del: apply_op.simps)
    have "admitted_by_next xs ?m' @ queued (run xs ?m') = queued ?m' @ first_attempts xs ?m'"
      using Cons.IH[OF ok g] .
    then show ?thesis
      using Acquire by (simp add: queued_acquire snd_apply_op del: apply_op.simps)
  next
    case (Release i)
    let ?m' = "release i m"
    have ok: "queue_ok ?m'" using Cons.prems(1) by (rule queue_ok_release)
    have g: "next_only_when_free xs ?m'"
      using Cons.prems(2) Release by (simp add: snd_apply_op del: apply_op.simps)
    have q: "queued ?m' = queued m"
      by (simp add: release_def queued_def)
    from Cons.IH[OF ok g] show ?thesis
      using Release q by (simp add: snd_apply_op del: apply_op.simps)
  next
    case AcquireNext
    have free: "\<not> held m" and g: "next_only_when_free xs (snd (acquire_next m))"
      using Cons.prems(2) AcquireNext by simp_all
    have ok: "queue_ok (snd (acquire_next m))"
      using Cons.prems(1) by (rule queue_ok_acquire_next)
    note ih = Cons.IH[OF ok g]
    show ?thesis
    proof (cases "wait_queue m")
      case Nil
      then have "acquire_next m = (WAITING, m)" by (rule acquire_next_empty)
      then show ?thesis using ih AcquireNext by (simp add: snd_apply_op del: apply_op.simps)
    next
      case (Cons p q)
      obtain k r where p: "p = (k, r)" by (cases p)
      have an: "acquire_next m = (Admitted r, m\<lparr>held := True, held_by := Some (url r), wait_queue := q\<rparr>)"
        using free Cons p by (simp add: acquire_next_free)
      have key: "url r = k"
        using \<open>queue_ok m\<close> Cons p by (simp add: queue_ok_def)
      have qm: "queued m = k # map fst q"
        using Cons p by (simp add: queued_def)
      have qm': "queued (m\<lparr>held := True, held_by := Some (url r), wait_queue := q\<rparr>) = map fst q"
        by (simp add: queued_def)
      show ?thesis
        using ih AcquireNext an key qm qm' by (simp add: snd_apply_op del: apply_op.simps)
    qed
  qed
qed

text \<open>
  Claim C6, as amended. For a well-formed wait queue and every sequence of manager
  operations in which \<^verbatim>\<open>acquire_next\<close> is called only while the lock is free, the
  identities \<^verbatim>\<open>acquire_next\<close> admits, in the order of admission, followed by those
  still waiting, are the identities that waited at the start followed by those that arrived
  during the run, in the order of their first admission attempt: admission is FIFO. With
  the lock free, \<^verbatim>\<open>acquire_next\<close> pops the oldest entry and admits it. An
  \<^verbatim>\<open>acquire\<close> for an identity that is already waiting answers \<^verbatim>\<open>WAITING\<close>, leaves the
  order of the queue as it is and stores the new request under that identity. With an empty
  queue \<^verbatim>\<open>acquire_next\<close> answers \<^verbatim>\<open>WAITING\<close> and leaves the manager as it was, so a free
  lock stays free. Every sequence of operations keeps the queue well-formed.
\<close>

theorem wait_queue_fifo:
  assumes "queue_ok m"
  shows "(next_only_when_free xs m \<longrightarrow>
            admitted_by_next xs m @ queued (run xs m) = queued m @ first_attempts xs m)
       \<and> (\<not> held m \<and> wait_queue m = (k, r) # q \<longrightarrow>
            acquire_next m = (Admitted r, m\<lparr>held := True, held_by := Some (url r), wait_queue := q\<rparr>))
       \<and> (held m \<and> url r' \<in> set (queued m) \<longrightarrow>
            fst (acquire r' m) = WAITING
            \<and> queued (snd (acquire r' m)) = queued m
            \<and> map_of (wait_queue (snd (acquire r' m))) (url r') = Some r')
       \<and> (wait_queue m = [] \<longrightarrow> acquire_next m = (WAITING, m))
       \<and> queue_ok (run xs m)"
  using assms
  by (simp add: fifo_run acquire_next_free acquire_next_empty queue_ok_run queued_acquire)
     (simp add: acquire_def queued_def map_of_restore)

text \<open>
  The theorem at the scenario of the spec (8): \<^verbatim>\<open>a\<close>, \<^verbatim>\<open>b\<close>, \<^verbatim>\<open>c\<close> are enqueued in
  that order while the lock is held, \<^verbatim>\<open>a\<close> arrives a second time with new data, and
  three cycles of \<^verbatim>\<open>release\<close> and \<^verbatim>\<open>acquire_next\<close> admit \<^verbatim>\<open>a\<close>, \<^verbatim>\<open>b\<close>, \<^verbatim>\<open>c\<close>.
\<close>

theorem wait_queue_fifo_witness:
  "admitted_by_next fifo_demo free_manager = [''http://a'', ''http://b'', ''http://c'']
   \<and> first_attempts fifo_demo free_manager = [''http://a'', ''http://b'', ''http://c'']
   \<and> queued (snd (acquire ((page ''http://a'')\<lparr>meta := ''retry''\<rparr>)
                  (queued_manager ''http://x'' [page ''http://a'', page ''http://b''])))
       = [''http://a'', ''http://b'']
   \<and> map_of (wait_queue (snd (acquire ((page ''http://a'')\<lparr>meta := ''retry''\<rparr>)
                  (queued_manager ''http://x'' [page ''http://a'', page ''http://b'']))))
         ''http://a''
       = Some ((page ''http://a'')\<lparr>meta := ''retry''\<rparr>)
   \<and> acquire_next free_manager = (WAITING, free_manager)
   \<and> acquire_next (release ''http://x'' (queued_manager ''http://x'' [page ''http://a'', page ''http://b'']))
       = (Admitted (page ''http://a''), queued_manager ''http://a'' [page ''http://b''])"
proof -
  let ?m = "queued_manager ''http://x'' [page ''http://a'', page ''http://b'']"
  let ?f = "release ''http://x'' ?m"
  let ?r = "(page ''http://a'')\<lparr>meta := ''retry''\<rparr>"
  have ok1: "queue_ok free_manager"
    by (simp add: queue_ok_def queued_def free_manager_def)
  have ok2: "queue_ok ?m"
    by (simp add: queue_ok_def queued_def queued_manager_def page_def)
  have guard: "next_only_when_free fifo_demo free_manager"
    by (simp add: fifo_demo_def example_defs manager_defs)
  have rest: "queued (run fifo_demo free_manager) = []"
    by (simp add: fifo_demo_def example_defs manager_defs)
  have att: "first_attempts fifo_demo free_manager = [''http://a'', ''http://b'', ''http://c'']"
    by (simp add: fifo_demo_def example_defs manager_defs)
  have again: "held ?m \<and> url ?r \<in> set (queued ?m)"
    by (simp add: queued_manager_def queued_def page_def)
  have empty: "wait_queue free_manager = []"
    by (simp add: free_manager_def)
  from wait_queue_fifo[OF ok1, where xs = fifo_demo] guard rest att empty
  have a: "admitted_by_next fifo_demo free_manager = [''http://a'', ''http://b'', ''http://c'']
           \<and> acquire_next free_manager = (WAITING, free_manager)"
    by (simp add: queued_def free_manager_def)
  from wait_queue_fifo[OF ok2, where r' = ?r] again
  have b: "queued (snd (acquire ?r ?m)) = queued ?m
           \<and> map_of (wait_queue (snd (acquire ?r ?m))) (url ?r) = Some ?r"
    by blast
  have q: "queued ?m = [''http://a'', ''http://b'']" and u: "url ?r = ''http://a''"
    by (simp_all add: queued_manager_def queued_def page_def)
  have ok3: "queue_ok ?f"
    using ok2 by (rule queue_ok_release)
  have oldest: "\<not> held ?f \<and> wait_queue ?f = (''http://a'', page ''http://a'') # [(''http://b'', page ''http://b'')]"
    by (simp add: release_def queued_manager_def page_def)
  from wait_queue_fifo[OF ok3, where k = "''http://a''" and r = "page ''http://a''"
         and q = "[(''http://b'', page ''http://b'')]"] oldest
  have c: "acquire_next ?f
           = (Admitted (page ''http://a''),
              ?f\<lparr>held := True, held_by := Some (url (page ''http://a'')),
                 wait_queue := [(''http://b'', page ''http://b'')]\<rparr>)"
    by blast
  have d: "?f\<lparr>held := True, held_by := Some (url (page ''http://a'')),
                 wait_queue := [(''http://b'', page ''http://b'')]\<rparr>
           = queued_manager ''http://a'' [page ''http://b'']"
    by (simp add: release_def queued_manager_def page_def)
  show ?thesis
    using a b c d att q u by simp
qed

text \<open>
  Claim C6 as stated, for every sequence of operations, fails: \<^verbatim>\<open>acquire_next\<close> pops
  the oldest entry and calls \<^verbatim>\<open>acquire\<close> on it, and with the lock still held
  \<^verbatim>\<open>acquire\<close> appends it behind the others. Here \<^verbatim>\<open>a\<close> attempted before \<^verbatim>\<open>b\<close>,
  and \<^verbatim>\<open>b\<close> is admitted while \<^verbatim>\<open>a\<close> still waits.
\<close>

theorem acquire_next_while_held_counterexample:
  "first_attempts rotation_demo free_manager = [''http://a'', ''http://b'']
   \<and> admitted_by_next rotation_demo free_manager = [''http://b'']
   \<and> queued (run rotation_demo free_manager) = [''http://a'']"
  by (simp add: rotation_demo_def example_defs manager_defs)

end
